theory Spec2Isabelle
  imports Main
begin

section \<open>Go values used by plugins/whitelist/kv.go\<close>

text \<open>
  A non-nil Go \<^verbatim>\<open>error\<close>; the nil error is \<open>None\<close> of \<open>error option\<close>.
  \<open>ErrKeyNotFound\<close> is the sentinel \<^verbatim>\<open>kv.ErrKeyNotFound\<close>, \<open>Wrapf\<close> an error that
  wraps another one (it has an \<^verbatim>\<open>Unwrap\<close> method), \<open>Failure\<close> any other error.
\<close>

datatype error = ErrKeyNotFound | Wrapf string error | Failure string

text \<open>\<^verbatim>\<open>errors.Unwrap\<close>: one level of unwrapping, nil for nil and for an unwrapped error.\<close>

fun errors_Unwrap :: "error option \<Rightarrow> error option" where
  "errors_Unwrap (Some (Wrapf msg e)) = Some e"
| "errors_Unwrap (Some ErrKeyNotFound) = None"
| "errors_Unwrap (Some (Failure msg)) = None"
| "errors_Unwrap None = None"

text \<open>\<^verbatim>\<open>errors.Is\<close>: the target is looked for along the chain of wrapped errors.\<close>

fun in_chain :: "error \<Rightarrow> error \<Rightarrow> bool" where
  "in_chain (Wrapf msg e) target = (if Wrapf msg e = target then True else in_chain e target)"
| "in_chain ErrKeyNotFound target = (ErrKeyNotFound = target)"
| "in_chain (Failure msg) target = (Failure msg = target)"

fun errors_Is :: "error option \<Rightarrow> error \<Rightarrow> bool" where
  "errors_Is None target = False"
| "errors_Is (Some e) target = in_chain e target"

text \<open>
  The run of a goroutine ends abnormally in two ways that matter here: a fatal error
  of the runtime (\<^verbatim>\<open>sync.RWMutex\<close> calls \<^verbatim>\<open>fatal\<close>, which no \<^verbatim>\<open>recover\<close> catches and
  which ends the process), and a \<^verbatim>\<open>Lock\<close> that can never be granted.
\<close>

datatype fault = Fatal string | Blocked

text \<open>Sequencing of steps that may end abnormally.\<close>

fun and_then :: "fault + 'a \<Rightarrow> ('a \<Rightarrow> fault + 'b) \<Rightarrow> fault + 'b" where
  "and_then (Inl f) k = Inl f"
| "and_then (Inr x) k = k x"

section \<open>The cache\<close>

text \<open>
  \<^verbatim>\<open>sync.RWMutex\<close>: free, held by the writer, or held by \<open>n + 1\<close> readers.
\<close>

datatype rwmutex = Free | Writer | Readers nat

text \<open>
  What a run does to the lock and to the store, in order. The list is not a field of the
  Go struct: it records the order of the calls the methods make.
\<close>

datatype event = EvLock | EvUnlock | EvRLock | EvRUnlock | EvGetKey string | EvSetKey string

text \<open>
  \<^verbatim>\<open>type Whitelist struct\<close>. \<open>'l\<close> is the representation of the \<^verbatim>\<open>[]string\<close> field
  (its elements as a list, or a slice header into a heap of backing arrays),
  \<open>'s\<close> the state of the bucket behind \<^verbatim>\<open>kv\<close>. The field \<^verbatim>\<open>h\<close> is read by no method.
\<close>

record ('l, 's) Whitelist =
  Enabled :: bool
  Whitelisted :: 'l
  m :: rwmutex
  kv :: 's
  trace :: "event list"

text \<open>
  The functions of the package \<^verbatim>\<open>hosting\<close> the methods call; their code is not part of
  the file, so they are parameters. \<^verbatim>\<open>GetKeyFromKV(ctx, bucket, key, &v)\<close> gets the bucket
  state, the key and the current value of the target, and yields the value it leaves in
  the target and its error. \<^verbatim>\<open>SetKeyToKV(ctx, bucket, key, v)\<close> yields the new bucket state
  and its error.
\<close>

record 's hosting =
  GetKeyFromKV_bool :: "'s \<Rightarrow> string \<Rightarrow> bool \<Rightarrow> bool \<times> error option"
  GetKeyFromKV_strings :: "'s \<Rightarrow> string \<Rightarrow> string list \<Rightarrow> string list \<times> error option"
  SetKeyToKV_bool :: "'s \<Rightarrow> string \<Rightarrow> bool \<Rightarrow> 's \<times> error option"
  SetKeyToKV_strings :: "'s \<Rightarrow> string \<Rightarrow> string list \<Rightarrow> 's \<times> error option"

subsection \<open>The lock\<close>

definition emit :: "event \<Rightarrow> ('l, 's) Whitelist \<Rightarrow> ('l, 's) Whitelist" where
  "emit ev w = w\<lparr>trace := trace w @ [ev]\<rparr>"

text \<open>\<^verbatim>\<open>w.m.Lock()\<close>: granted when the lock is free; there is no other goroutine in a run
  of this model to release it otherwise.\<close>

definition Lock :: "('l, 's) Whitelist \<Rightarrow> fault + ('l, 's) Whitelist" where
  "Lock w = (case m w of
      Free \<Rightarrow> Inr (emit EvLock (w\<lparr>m := Writer\<rparr>))
    | Writer \<Rightarrow> Inl Blocked
    | Readers n \<Rightarrow> Inl Blocked)"

text \<open>\<^verbatim>\<open>w.m.Unlock()\<close>: a fatal error unless the lock is held by the writer.\<close>

definition Unlock :: "('l, 's) Whitelist \<Rightarrow> fault + ('l, 's) Whitelist" where
  "Unlock w = (case m w of
      Writer \<Rightarrow> Inr (emit EvUnlock (w\<lparr>m := Free\<rparr>))
    | Free \<Rightarrow> Inl (Fatal ''sync: Unlock of unlocked RWMutex'')
    | Readers n \<Rightarrow> Inl (Fatal ''sync: Unlock of unlocked RWMutex''))"

definition RLock :: "('l, 's) Whitelist \<Rightarrow> fault + ('l, 's) Whitelist" where
  "RLock w = (case m w of
      Free \<Rightarrow> Inr (emit EvRLock (w\<lparr>m := Readers 0\<rparr>))
    | Readers n \<Rightarrow> Inr (emit EvRLock (w\<lparr>m := Readers (Suc n)\<rparr>))
    | Writer \<Rightarrow> Inl Blocked)"

definition RUnlock :: "('l, 's) Whitelist \<Rightarrow> fault + ('l, 's) Whitelist" where
  "RUnlock w = (case m w of
      Readers 0 \<Rightarrow> Inr (emit EvRUnlock (w\<lparr>m := Free\<rparr>))
    | Readers (Suc n) \<Rightarrow> Inr (emit EvRUnlock (w\<lparr>m := Readers n\<rparr>))
    | Free \<Rightarrow> Inl (Fatal ''sync: RUnlock of unlocked RWMutex'')
    | Writer \<Rightarrow> Inl (Fatal ''sync: RUnlock of unlocked RWMutex''))"

subsection \<open>The package slices\<close>

text \<open>\<^verbatim>\<open>slices.DeleteFunc(s, del)\<close>: the elements for which \<open>del\<close> is false, in order.\<close>

fun slices_DeleteFunc :: "'a list \<Rightarrow> ('a \<Rightarrow> bool) \<Rightarrow> 'a list" where
  "slices_DeleteFunc [] del = []"
| "slices_DeleteFunc (x # xs) del =
     (if del x then slices_DeleteFunc xs del else x # slices_DeleteFunc xs del)"

text \<open>\<^verbatim>\<open>slices.Contains(s, v)\<close>: a linear scan.\<close>

fun slices_Contains :: "'a list \<Rightarrow> 'a \<Rightarrow> bool" where
  "slices_Contains [] v = False"
| "slices_Contains (x # xs) v = (if x = v then True else slices_Contains xs v)"

subsection \<open>The methods\<close>

type_synonym 's cache = "(string list, 's) Whitelist"

text \<open>\<^verbatim>\<open>saveEnabled\<close>, \<^verbatim>\<open>saveWhitelisted\<close>: the deferred \<^verbatim>\<open>Unlock\<close> runs after the result is
  set, on both returns.\<close>

definition saveEnabled :: "'s hosting \<Rightarrow> 's cache \<Rightarrow> fault + (error option \<times> 's cache)" where
  "saveEnabled H w =
     and_then (Lock w) (\<lambda>w1.
       case SetKeyToKV_bool H (kv w1) ''enabled'' (Enabled w1) of (kv', err) \<Rightarrow>
         let w2 = emit (EvSetKey ''enabled'') (w1\<lparr>kv := kv'\<rparr>);
             result = (case err of Some e \<Rightarrow> Some e | None \<Rightarrow> None)
         in and_then (Unlock w2) (\<lambda>w3. Inr (result, w3)))"

definition saveWhitelisted :: "'s hosting \<Rightarrow> 's cache \<Rightarrow> fault + (error option \<times> 's cache)" where
  "saveWhitelisted H w =
     and_then (Lock w) (\<lambda>w1.
       case SetKeyToKV_strings H (kv w1) ''whitelisted'' (Whitelisted w1) of (kv', err) \<Rightarrow>
         let w2 = emit (EvSetKey ''whitelisted'') (w1\<lparr>kv := kv'\<rparr>);
             result = (case err of Some e \<Rightarrow> Some e | None \<Rightarrow> None)
         in and_then (Unlock w2) (\<lambda>w3. Inr (result, w3)))"

definition IsEnabled :: "'s cache \<Rightarrow> fault + (bool \<times> 's cache)" where
  "IsEnabled w =
     and_then (RLock w) (\<lambda>w1.
       let result = Enabled w1 in and_then (RUnlock w1) (\<lambda>w2. Inr (result, w2)))"

definition Enable :: "'s hosting \<Rightarrow> 's cache \<Rightarrow> fault + (error option \<times> 's cache)" where
  "Enable H w =
     and_then (Lock w) (\<lambda>w1.
     and_then (Unlock (w1\<lparr>Enabled := True\<rparr>)) (\<lambda>w2. saveEnabled H w2))"

definition Disable :: "'s hosting \<Rightarrow> 's cache \<Rightarrow> fault + (error option \<times> 's cache)" where
  "Disable H w =
     and_then (Lock w) (\<lambda>w1.
     and_then (Unlock (w1\<lparr>Enabled := False\<rparr>)) (\<lambda>w2. saveEnabled H w2))"

definition Add :: "'s hosting \<Rightarrow> string \<Rightarrow> 's cache \<Rightarrow> fault + (error option \<times> 's cache)" where
  "Add H uuid w =
     and_then (Lock w) (\<lambda>w1.
     and_then (Unlock (w1\<lparr>Whitelisted := Whitelisted w1 @ [uuid]\<rparr>)) (\<lambda>w2.
       saveWhitelisted H w2))"

definition Remove :: "'s hosting \<Rightarrow> string \<Rightarrow> 's cache \<Rightarrow> fault + (error option \<times> 's cache)" where
  "Remove H uuid w =
     and_then (Lock w) (\<lambda>w1.
     and_then (Unlock (w1\<lparr>Whitelisted := slices_DeleteFunc (Whitelisted w1) (\<lambda>s. s = uuid)\<rparr>))
       (\<lambda>w2. saveWhitelisted H w2))"

definition Contains :: "string \<Rightarrow> 's cache \<Rightarrow> fault + (bool \<times> 's cache)" where
  "Contains uuid w =
     and_then (RLock w) (\<lambda>w1.
       let result = slices_Contains (Whitelisted w1) uuid
       in and_then (RUnlock w1) (\<lambda>w2. Inr (result, w2)))"

text \<open>
  \<^verbatim>\<open>Reload\<close>. The first fetch writes into \<^verbatim>\<open>w.Enabled\<close>; when its error does not unwrap
  to \<^verbatim>\<open>kv.ErrKeyNotFound\<close> the \<^verbatim>\<open>else\<close> branch returns that error, nil included. The
  second fetch writes into \<^verbatim>\<open>w.Whitelisted\<close> and returns only a non-nil error.
\<close>

definition Reload_body :: "'s hosting \<Rightarrow> 's cache \<Rightarrow> error option \<times> 's cache" where
  "Reload_body H w =
     (case GetKeyFromKV_bool H (kv w) ''enabled'' (Enabled w) of (b, err) \<Rightarrow>
        let w1 = emit (EvGetKey ''enabled'') (w\<lparr>Enabled := b\<rparr>) in
        if errors_Is (errors_Unwrap err) ErrKeyNotFound then
          let w2 = w1\<lparr>Enabled := False\<rparr> in
          (case GetKeyFromKV_strings H (kv w2) ''whitelisted'' (Whitelisted w2) of (l, err2) \<Rightarrow>
             let w3 = emit (EvGetKey ''whitelisted'') (w2\<lparr>Whitelisted := l\<rparr>) in
             if errors_Is (errors_Unwrap err2) ErrKeyNotFound then (None, w3\<lparr>Whitelisted := []\<rparr>)
             else (case err2 of Some e \<Rightarrow> (Some e, w3) | None \<Rightarrow> (None, w3)))
        else (err, w1))"

definition Reload :: "'s hosting \<Rightarrow> 's cache \<Rightarrow> fault + (error option \<times> 's cache)" where
  "Reload H w =
     and_then (Lock w) (\<lambda>w1.
       case Reload_body H w1 of (result, w2) \<Rightarrow>
         and_then (Unlock w2) (\<lambda>w3. Inr (result, w3)))"

subsection \<open>The constructor and its goroutine\<close>

text \<open>
  \<^verbatim>\<open>json.Unmarshal(data, &v)\<close> of the standard library, a parameter like the functions of
  \<^verbatim>\<open>hosting\<close>: from the payload and the current value of the target to the value it leaves
  in the target and its error.
\<close>

record json =
  Unmarshal_bool :: "string \<Rightarrow> bool \<Rightarrow> bool \<times> error option"
  Unmarshal_strings :: "string \<Rightarrow> string list \<Rightarrow> string list \<times> error option"

text \<open>\<^verbatim>\<open>kv.KeyValueEntry\<close>, as far as the goroutine reads it.\<close>

record KeyValueEntry =
  Key :: string
  Value :: string

text \<open>
  \<^verbatim>\<open>NewKVWhitelist\<close> up to the \<^verbatim>\<open>go\<close> statement: the outcomes of \<^verbatim>\<open>Bucket\<close> and of
  \<^verbatim>\<open>WatchAll\<close> are given.
\<close>

definition NewKVWhitelist :: "error + 's \<Rightarrow> error option \<Rightarrow> error + 's cache" where
  "NewKVWhitelist bucket watcher =
     (case bucket of
        Inl err \<Rightarrow> Inl err
      | Inr b \<Rightarrow>
          (case watcher of
             Some err \<Rightarrow> Inl err
           | None \<Rightarrow> Inr \<lparr>Enabled = False, Whitelisted = [], m = Free, kv = b, trace = []\<rparr>))"

text \<open>
  The body of the \<^verbatim>\<open>for key := range watcher.Changes()\<close> loop, for one received value
  (\<open>None\<close> is the nil entry). In each case the \<^verbatim>\<open>if err != nil\<close> block unlocks and falls
  through to the \<^verbatim>\<open>Unlock\<close> after it. The calls of \<^verbatim>\<open>log.Printf\<close> change nothing here.
\<close>

definition apply_change :: "json \<Rightarrow> KeyValueEntry option \<Rightarrow> 's cache \<Rightarrow> fault + 's cache" where
  "apply_change J key w =
     (case key of
        None \<Rightarrow> Inr w
      | Some entry \<Rightarrow>
          if Key entry = ''enabled'' then
            and_then (Lock w) (\<lambda>w1.
              case Unmarshal_bool J (Value entry) (Enabled w1) of (b, err) \<Rightarrow>
                and_then (case err of Some e \<Rightarrow> Unlock (w1\<lparr>Enabled := b\<rparr>)
                                    | None \<Rightarrow> Inr (w1\<lparr>Enabled := b\<rparr>))
                  (\<lambda>w2. Unlock w2))
          else if Key entry = ''whitelisted'' then
            and_then (Lock w) (\<lambda>w1.
              case Unmarshal_strings J (Value entry) (Whitelisted w1) of (l, err) \<Rightarrow>
                and_then (case err of Some e \<Rightarrow> Unlock (w1\<lparr>Whitelisted := l\<rparr>)
                                    | None \<Rightarrow> Inr (w1\<lparr>Whitelisted := l\<rparr>))
                  (\<lambda>w2. Unlock w2))
          else Inr w)"

text \<open>The loop, over the values the channel delivers before it is closed. A fatal error
  ends the process, so no later value is handled.\<close>

fun apply_loop :: "json \<Rightarrow> KeyValueEntry option list \<Rightarrow> 's cache \<Rightarrow> fault + 's cache" where
  "apply_loop J [] w = Inr w"
| "apply_loop J (key # keys) w = and_then (apply_change J key w) (apply_loop J keys)"

subsection \<open>Callers\<close>

text \<open>A caller that adds the identifiers of a list one after the other, whatever error
  each call returns.\<close>

fun Add_each :: "'s hosting \<Rightarrow> string list \<Rightarrow> 's cache \<Rightarrow> fault + 's cache" where
  "Add_each H [] w = Inr w"
| "Add_each H (uuid # uuids) w = and_then (Add H uuid w) (\<lambda>r. Add_each H uuids (snd r))"

text \<open>Whether no \<^verbatim>\<open>SetKeyToKV\<close> call of a trace is made while the exclusive lock is held
  (\<open>held\<close>: whether it is held at the start of the trace).\<close>

fun sets_outside_lock :: "bool \<Rightarrow> event list \<Rightarrow> bool" where
  "sets_outside_lock held [] = True"
| "sets_outside_lock held (EvLock # es) = sets_outside_lock True es"
| "sets_outside_lock held (EvUnlock # es) = sets_outside_lock False es"
| "sets_outside_lock held (EvSetKey k # es) = (if held then False else sets_outside_lock held es)"
| "sets_outside_lock held (EvRLock # es) = sets_outside_lock held es"
| "sets_outside_lock held (EvRUnlock # es) = sets_outside_lock held es"
| "sets_outside_lock held (EvGetKey k # es) = sets_outside_lock held es"

section \<open>Slices and their backing arrays\<close>

text \<open>
  Whether the slice \<^verbatim>\<open>AllWhitelisted\<close> returns shares storage with \<^verbatim>\<open>w.Whitelisted\<close>
  cannot be said of lists of elements, so here a \<^verbatim>\<open>[]string\<close> is what Go makes of it: a
  header (the backing array, the offset of the first element in it, length and capacity)
  and a heap of backing arrays. An array is allocated at the end of the heap, so its
  address is the length of the heap before.
\<close>

record slice =
  arr :: nat
  off :: nat
  len :: nat
  cap :: nat

type_synonym heap = "string list list"

text \<open>The elements of a slice.\<close>

definition contents :: "heap \<Rightarrow> slice \<Rightarrow> string list" where
  "contents h s = take (len s) (drop (off s) (h ! arr s))"

text \<open>
  \<^verbatim>\<open>make([]string, n)\<close>. For \<open>n = 0\<close> the runtime allocates nothing: the header has
  capacity zero, and no element can be read or written through it.
\<close>

definition make_strings :: "heap \<Rightarrow> nat \<Rightarrow> slice \<times> heap" where
  "make_strings h n =
     (if n = 0 then (\<lparr>arr = 0, off = 0, len = 0, cap = 0\<rparr>, h)
      else (\<lparr>arr = length h, off = 0, len = n, cap = n\<rparr>, h @ [replicate n '''']))"

text \<open>
  \<^verbatim>\<open>append(s, xs...)\<close>: within the capacity the elements are written into the backing
  array of \<open>s\<close> behind its last element; beyond it a new array is allocated, \<open>s\<close> and
  \<open>xs\<close> copied into it and the rest filled with empty strings. How far the runtime
  grows the capacity beyond the need is the parameter \<open>growslice\<close>.
\<close>

definition append_slice ::
  "(nat \<Rightarrow> nat \<Rightarrow> nat) \<Rightarrow> heap \<Rightarrow> slice \<Rightarrow> string list \<Rightarrow> slice \<times> heap" where
  "append_slice growslice h s xs =
     (let need = len s + length xs in
      if need \<le> cap s then
        (s\<lparr>len := need\<rparr>,
         h[arr s := take (off s + len s) (h ! arr s) @ xs @ drop (off s + need) (h ! arr s)])
      else
        let newcap = max need (growslice (cap s) need) in
        (\<lparr>arr = length h, off = 0, len = need, cap = newcap\<rparr>,
         h @ [contents h s @ xs @ replicate (newcap - need) '''']))"

type_synonym 's cache_mem = "(slice, 's) Whitelist"


text \<open>\<^verbatim>\<open>AllWhitelisted\<close>; the result is the header of \<^verbatim>\<open>copy\<close> and the heap after the call.\<close>

definition AllWhitelisted ::
  "(nat \<Rightarrow> nat \<Rightarrow> nat) \<Rightarrow> heap \<Rightarrow> 's cache_mem \<Rightarrow> fault + ((slice \<times> heap) \<times> 's cache_mem)" where
  "AllWhitelisted growslice h w =
     and_then (RLock w) (\<lambda>w1.
       case make_strings h 0 of (copy, h1) \<Rightarrow>
         let result = append_slice growslice h1 copy (contents h1 (Whitelisted w1))
         in and_then (RUnlock w1) (\<lambda>w2. Inr (result, w2)))"

text \<open>\<^verbatim>\<open>Contains\<close> on this representation.\<close>

definition Contains_mem :: "heap \<Rightarrow> string \<Rightarrow> 's cache_mem \<Rightarrow> fault + (bool \<times> 's cache_mem)" where
  "Contains_mem h uuid w =
     and_then (RLock w) (\<lambda>w1.
       let result = slices_Contains (contents h (Whitelisted w1)) uuid
       in and_then (RUnlock w1) (\<lambda>w2. Inr (result, w2)))"

text \<open>
  What the holder of a slice can do to it: assign to an element (\<^verbatim>\<open>s[i] = v\<close>, a panic
  when \<open>i\<close> is not below the length), append to it, and reslice it within its capacity
  (\<^verbatim>\<open>s = s[lo:hi]\<close>). \<open>None\<close> is the panic.
\<close>

datatype mutation = Store nat string | AppendTo "string list" | Reslice nat nat

fun mutate ::
  "(nat \<Rightarrow> nat \<Rightarrow> nat) \<Rightarrow> slice \<times> heap \<Rightarrow> mutation \<Rightarrow> (slice \<times> heap) option" where
  "mutate growslice (s, h) (Store i v) =
     (if i < len s then Some (s, h[arr s := (h ! arr s)[off s + i := v]]) else None)"
| "mutate growslice (s, h) (AppendTo xs) = Some (append_slice growslice h s xs)"
| "mutate growslice (s, h) (Reslice lo hi) =
     (if lo \<le> hi \<and> hi \<le> cap s
      then Some (\<lparr>arr = arr s, off = off s + lo, len = hi - lo, cap = cap s - lo\<rparr>, h)
      else None)"

fun mutate_all ::
  "(nat \<Rightarrow> nat \<Rightarrow> nat) \<Rightarrow> slice \<times> heap \<Rightarrow> mutation list \<Rightarrow> (slice \<times> heap) option" where
  "mutate_all growslice sh [] = Some sh"
| "mutate_all growslice sh (mu # mus) =
     (case mutate growslice sh mu of None \<Rightarrow> None | Some sh' \<Rightarrow> mutate_all growslice sh' mus)"

text \<open>
  A slice \<open>r\<close> cannot reach the elements of \<open>s\<close>: \<open>s\<close> is empty, or its array is
  allocated and \<open>r\<close> has no capacity or lies in another array.
\<close>

definition apart :: "heap \<Rightarrow> slice \<Rightarrow> slice \<Rightarrow> bool" where
  "apart h r s \<longleftrightarrow>
     len r \<le> cap r \<and> (len s = 0 \<or> (arr s < length h \<and> (cap r = 0 \<or> arr r \<noteq> arr s)))"

section \<open>Concrete inputs\<close>

text \<open>
  A bucket to run the methods on: what is stored under each key (the newest entry first),
  and typed accessors over it that wrap \<open>ErrKeyNotFound\<close> for a missing key, fail on a
  value of the wrong kind without touching the target, and fail every write while the
  store is not \<open>online\<close>.
\<close>

datatype stored = JBool bool | JStrings "string list" | JBad

type_synonym bucket = "(string \<times> stored) list"

definition fake_hosting :: "bool \<Rightarrow> bucket hosting" where
  "fake_hosting online = \<lparr>
     GetKeyFromKV_bool = (\<lambda>b k t. case map_of b k of
         None \<Rightarrow> (t, Some (Wrapf ''get key'' ErrKeyNotFound))
       | Some (JBool v) \<Rightarrow> (v, None)
       | Some (JStrings l) \<Rightarrow> (t, Some (Wrapf ''unmarshal'' (Failure ''json: cannot unmarshal'')))
       | Some JBad \<Rightarrow> (t, Some (Wrapf ''unmarshal'' (Failure ''invalid character'')))),
     GetKeyFromKV_strings = (\<lambda>b k t. case map_of b k of
         None \<Rightarrow> (t, Some (Wrapf ''get key'' ErrKeyNotFound))
       | Some (JStrings l) \<Rightarrow> (l, None)
       | Some (JBool v) \<Rightarrow> (t, Some (Wrapf ''unmarshal'' (Failure ''json: cannot unmarshal'')))
       | Some JBad \<Rightarrow> (t, Some (Wrapf ''unmarshal'' (Failure ''invalid character'')))),
     SetKeyToKV_bool = (\<lambda>b k v.
        if online then ((k, JBool v) # b, None) else (b, Some (Failure ''nats: timeout''))),
     SetKeyToKV_strings = (\<lambda>b k v.
        if online then ((k, JStrings v) # b, None) else (b, Some (Failure ''nats: timeout'')))\<rparr>"

text \<open>A decoder that knows three payloads and fails on every other one without touching
  the target.\<close>

definition fake_json :: json where
  "fake_json = \<lparr>
     Unmarshal_bool = (\<lambda>p t.
        if p = ''true'' then (True, None) else if p = ''false'' then (False, None)
        else (t, Some (Failure ''invalid character''))),
     Unmarshal_strings = (\<lambda>p t.
        if p = ''[]'' then ([], None) else (t, Some (Failure ''invalid character'')))\<rparr>"

text \<open>A cache over a bucket, with the lock free.\<close>

definition cache_of :: "bool \<Rightarrow> string list \<Rightarrow> bucket \<Rightarrow> bucket cache" where
  "cache_of enabled members b =
     \<lparr>Enabled = enabled, Whitelisted = members, m = Free, kv = b, trace = []\<rparr>"

section \<open>Facts about the lock and the library functions\<close>

lemma slices_Contains_iff: "slices_Contains xs v \<longleftrightarrow> v \<in> set xs"
  by (induction xs) auto

lemma slices_DeleteFunc_filter: "slices_DeleteFunc xs del = filter (\<lambda>x. \<not> del x) xs"
  by (induction xs) auto

subsection \<open>The methods, called with the lock free\<close>

lemma emit_simps [simp]:
  "Enabled (emit ev w) = Enabled w" "Whitelisted (emit ev w) = Whitelisted w"
  "m (emit ev w) = m w" "kv (emit ev w) = kv w" "trace (emit ev w) = trace w @ [ev]"
  by (simp_all add: emit_def)

lemma Lock_Free: "m w = Free \<Longrightarrow> Lock w = Inr (emit EvLock (w\<lparr>m := Writer\<rparr>))"
  by (simp add: Lock_def)

lemma Unlock_Writer: "m w = Writer \<Longrightarrow> Unlock w = Inr (emit EvUnlock (w\<lparr>m := Free\<rparr>))"
  by (simp add: Unlock_def)

lemma Unlock_Free: "m w = Free \<Longrightarrow> Unlock w = Inl (Fatal ''sync: Unlock of unlocked RWMutex'')"
  by (simp add: Unlock_def)

lemma saveEnabled_Free:
  assumes "m w = Free"
  shows "saveEnabled H w =
    Inr (snd (SetKeyToKV_bool H (kv w) ''enabled'' (Enabled w)),
         w\<lparr>m := Free, kv := fst (SetKeyToKV_bool H (kv w) ''enabled'' (Enabled w)),
           trace := trace w @ [EvLock, EvSetKey ''enabled'', EvUnlock]\<rparr>)"
  using assms
  by (simp add: saveEnabled_def Lock_Free Unlock_Writer emit_def split: prod.splits option.splits)

lemma saveWhitelisted_Free:
  assumes "m w = Free"
  shows "saveWhitelisted H w =
    Inr (snd (SetKeyToKV_strings H (kv w) ''whitelisted'' (Whitelisted w)),
         w\<lparr>m := Free, kv := fst (SetKeyToKV_strings H (kv w) ''whitelisted'' (Whitelisted w)),
           trace := trace w @ [EvLock, EvSetKey ''whitelisted'', EvUnlock]\<rparr>)"
  using assms
  by (simp add: saveWhitelisted_def Lock_Free Unlock_Writer emit_def split: prod.splits option.splits)

lemma Enable_Free:
  assumes "m w = Free"
  shows "Enable H w =
    Inr (snd (SetKeyToKV_bool H (kv w) ''enabled'' True),
         w\<lparr>Enabled := True, m := Free, kv := fst (SetKeyToKV_bool H (kv w) ''enabled'' True),
           trace := trace w @ [EvLock, EvUnlock, EvLock, EvSetKey ''enabled'', EvUnlock]\<rparr>)"
  using assms
  by (simp add: Enable_def Lock_Free Unlock_Writer saveEnabled_Free emit_def)


lemma Disable_Free:
  assumes "m w = Free"
  shows "Disable H w =
    Inr (snd (SetKeyToKV_bool H (kv w) ''enabled'' False),
         w\<lparr>Enabled := False, m := Free, kv := fst (SetKeyToKV_bool H (kv w) ''enabled'' False),
           trace := trace w @ [EvLock, EvUnlock, EvLock, EvSetKey ''enabled'', EvUnlock]\<rparr>)"
  using assms
  by (simp add: Disable_def Lock_Free Unlock_Writer saveEnabled_Free emit_def)

lemma Add_Free:
  assumes "m w = Free"
  shows "Add H uuid w =
    Inr (snd (SetKeyToKV_strings H (kv w) ''whitelisted'' (Whitelisted w @ [uuid])),
         w\<lparr>Whitelisted := Whitelisted w @ [uuid], m := Free,
           kv := fst (SetKeyToKV_strings H (kv w) ''whitelisted'' (Whitelisted w @ [uuid])),
           trace := trace w @ [EvLock, EvUnlock, EvLock, EvSetKey ''whitelisted'', EvUnlock]\<rparr>)"
  using assms
  by (simp add: Add_def Lock_Free Unlock_Writer saveWhitelisted_Free emit_def)

lemma Remove_Free:
  assumes "m w = Free"
  shows "Remove H uuid w =
    Inr (snd (SetKeyToKV_strings H (kv w) ''whitelisted''
                (slices_DeleteFunc (Whitelisted w) (\<lambda>s. s = uuid))),
         w\<lparr>Whitelisted := slices_DeleteFunc (Whitelisted w) (\<lambda>s. s = uuid), m := Free,
           kv := fst (SetKeyToKV_strings H (kv w) ''whitelisted''
                (slices_DeleteFunc (Whitelisted w) (\<lambda>s. s = uuid))),
           trace := trace w @ [EvLock, EvUnlock, EvLock, EvSetKey ''whitelisted'', EvUnlock]\<rparr>)"
  using assms
  by (simp add: Remove_def Lock_Free Unlock_Writer saveWhitelisted_Free emit_def)

lemma IsEnabled_Free:
  "m w = Free \<Longrightarrow>
   IsEnabled w = Inr (Enabled w, w\<lparr>m := Free, trace := trace w @ [EvRLock, EvRUnlock]\<rparr>)"
  by (simp add: IsEnabled_def RLock_def RUnlock_def emit_def)

lemma Contains_Free:
  "m w = Free \<Longrightarrow>
   Contains uuid w =
     Inr (slices_Contains (Whitelisted w) uuid,
          w\<lparr>m := Free, trace := trace w @ [EvRLock, EvRUnlock]\<rparr>)"
  by (simp add: Contains_def RLock_def RUnlock_def emit_def)

lemma Add_each_Free:
  "m w = Free \<Longrightarrow>
   \<exists>w'. Add_each H uuids w = Inr w' \<and> m w' = Free \<and> Whitelisted w' = Whitelisted w @ uuids
     \<and> Enabled w' = Enabled w"
proof (induction uuids arbitrary: w)
  case Nil
  then show ?case by simp
next
  case (Cons u us)
  let ?w1 = "snd (projr (Add H u w))"
  have a: "Add H u w = Inr (fst (projr (Add H u w)), ?w1)"
    using Cons.prems by (simp add: Add_Free)
  have f: "m ?w1 = Free" and l: "Whitelisted ?w1 = Whitelisted w @ [u]"
    and e: "Enabled ?w1 = Enabled w"
    using Cons.prems by (simp_all add: Add_Free)
  from Cons.IH [OF f] obtain w' where
    "Add_each H us ?w1 = Inr w'" "m w' = Free" "Whitelisted w' = Whitelisted ?w1 @ us"
    "Enabled w' = Enabled ?w1"
    by blast
  with a l e show ?case by (metis Add_each.simps(2) and_then.simps(2) append_Cons append_Nil append_assoc snd_conv)
qed

subsection \<open>Reload and the goroutine\<close>

lemma Reload_body_m: "m (snd (Reload_body H w)) = m w"
  by (simp add: Reload_body_def Let_def split: prod.splits option.splits)

lemma Reload_Free:
  assumes "m w = Free"
  shows "Reload H w =
     Inr (fst (Reload_body H (emit EvLock (w\<lparr>m := Writer\<rparr>))),
          emit EvUnlock ((snd (Reload_body H (emit EvLock (w\<lparr>m := Writer\<rparr>))))\<lparr>m := Free\<rparr>))"
proof -
  let ?w1 = "emit EvLock (w\<lparr>m := Writer\<rparr>)"
  obtain r w2 where eq: "Reload_body H ?w1 = (r, w2)" by (cases "Reload_body H ?w1")
  have "m (snd (Reload_body H ?w1)) = Writer" by (simp add: Reload_body_m)
  with eq have "m w2 = Writer" by simp
  with eq show ?thesis
    using assms by (simp add: Reload_def Lock_Free Unlock_Writer)
qed

text \<open>
  When the fetch of "enabled" succeeds, \<^verbatim>\<open>Reload\<close> returns nil after that fetch alone. When
  it reports the key missing, \<^verbatim>\<open>Whitelisted\<close> ends as what the second fetch left in it, or
  empty when that one reports its key missing too.
\<close>

lemma Reload_enabled_present:
  assumes "m w = Free" and "GetKeyFromKV_bool H (kv w) ''enabled'' (Enabled w) = (b, None)"
  shows "Reload H w =
     Inr (None, w\<lparr>Enabled := b, m := Free,
                  trace := trace w @ [EvLock, EvGetKey ''enabled'', EvUnlock]\<rparr>)"
  using assms by (simp add: Reload_Free Reload_body_def Let_def emit_def)

lemma Reload_enabled_absent_members:
  assumes "m w = Free"
    and "errors_Is (errors_Unwrap (snd (GetKeyFromKV_bool H (kv w) ''enabled'' (Enabled w))))
           ErrKeyNotFound"
    and "GetKeyFromKV_strings H (kv w) ''whitelisted'' (Whitelisted w) = (l, err2)"
    and "Reload H w = Inr (result, w')"
  shows "Whitelisted w' = (if errors_Is (errors_Unwrap err2) ErrKeyNotFound then [] else l)"
  using assms
  by (auto simp add: Reload_Free Reload_body_def Let_def split: prod.splits option.splits)

text \<open>
  The handling of one event: a payload that does not decode ends in the fatal error of
  the second \<^verbatim>\<open>Unlock\<close>, whatever the decoder and the payload; one that decodes is stored.
\<close>

lemma apply_change_enabled_failure:
  assumes "m w = Free" and "Key entry = ''enabled''"
    and "Unmarshal_bool J (Value entry) (Enabled w) = (b, Some e)"
  shows "apply_change J (Some entry) w = Inl (Fatal ''sync: Unlock of unlocked RWMutex'')"
  using assms by (simp add: apply_change_def Lock_Free Unlock_Writer Unlock_Free)

lemma apply_change_whitelisted_failure:
  assumes "m w = Free" and "Key entry = ''whitelisted''"
    and "Unmarshal_strings J (Value entry) (Whitelisted w) = (l, Some e)"
  shows "apply_change J (Some entry) w = Inl (Fatal ''sync: Unlock of unlocked RWMutex'')"
  using assms by (simp add: apply_change_def Lock_Free Unlock_Writer Unlock_Free)

lemma apply_change_enabled_ok:
  assumes "m w = Free" and "Key entry = ''enabled''"
    and "Unmarshal_bool J (Value entry) (Enabled w) = (b, None)"
  shows "apply_change J (Some entry) w
           = Inr (w\<lparr>Enabled := b, m := Free, trace := trace w @ [EvLock, EvUnlock]\<rparr>)"
  using assms by (simp add: apply_change_def Lock_Free Unlock_Writer emit_def)

lemma apply_change_whitelisted_ok:
  assumes "m w = Free" and "Key entry = ''whitelisted''"
    and "Unmarshal_strings J (Value entry) (Whitelisted w) = (l, None)"
  shows "apply_change J (Some entry) w
           = Inr (w\<lparr>Whitelisted := l, m := Free, trace := trace w @ [EvLock, EvUnlock]\<rparr>)"
  using assms by (simp add: apply_change_def Lock_Free Unlock_Writer emit_def)

subsection \<open>Slices that share no storage\<close>

lemma contents_alloc: "arr s < length h \<Longrightarrow> contents (h @ [a]) s = contents h s"
  by (simp add: contents_def nth_append)

lemma contents_len0: "len s = 0 \<Longrightarrow> contents h s = []"
  by (simp add: contents_def)

lemma contents_update_other: "a \<noteq> arr s \<Longrightarrow> contents (h[a := x]) s = contents h s"
  by (simp add: contents_def)

lemma mutate_apart:
  assumes "apart h r s" and "mutate growslice (r, h) mu = Some (r', h')"
  shows "apart h' r' s \<and> contents h' s = contents h s"
proof (cases "len s = 0")
  case True
  have "len r' \<le> cap r'"
    using assms
    by (cases mu) (auto simp add: apart_def append_slice_def Let_def split: if_splits)
  with True show ?thesis by (simp add: apart_def contents_len0)
next
  case False
  with assms(1) have a: "arr s < length h" and c: "cap r = 0 \<or> arr r \<noteq> arr s"
    and l: "len r \<le> cap r"
    by (simp_all add: apart_def)
  show ?thesis
  proof (cases mu)
    case (Store i v)
    with assms(2) l c a show ?thesis
      by (auto simp add: apart_def contents_update_other split: if_splits)
  next
    case (AppendTo xs)
    with assms(2) l c a show ?thesis
      by (auto simp add: apart_def append_slice_def Let_def contents_update_other contents_alloc
          split: if_splits)
  next
    case (Reslice lo hi)
    with assms(2) l c a show ?thesis
      by (auto simp add: apart_def split: if_splits)
  qed
qed

lemma mutate_all_apart:
  "apart h r s \<Longrightarrow> mutate_all growslice (r, h) mus = Some (r', h') \<Longrightarrow>
   contents h' s = contents h s"
proof (induction mus arbitrary: r h)
  case Nil
  then show ?case by simp
next
  case (Cons mu mus)
  from Cons.prems(2) obtain r1 h1 where
    s: "mutate growslice (r, h) mu = Some (r1, h1)"
    and t: "mutate_all growslice (r1, h1) mus = Some (r', h')"
    by (auto split: option.splits)
  from mutate_apart [OF Cons.prems(1) s]
  have "apart h1 r1 s" and "contents h1 s = contents h s" by simp_all
  with Cons.IH [OF _ t] show ?case by simp
qed


lemma AllWhitelisted_Free:
  "m w = Free \<Longrightarrow>
   AllWhitelisted growslice h w =
     Inr (append_slice growslice h \<lparr>arr = 0, off = 0, len = 0, cap = 0\<rparr> (contents h (Whitelisted w)),
          w\<lparr>m := Free, trace := trace w @ [EvRLock, EvRUnlock]\<rparr>)"
  by (simp add: AllWhitelisted_def make_strings_def RLock_def RUnlock_def emit_def)

lemma Contains_mem_Free:
  "m w = Free \<Longrightarrow>
   Contains_mem h uuid w =
     Inr (slices_Contains (contents h (Whitelisted w)) uuid,
          w\<lparr>m := Free, trace := trace w @ [EvRLock, EvRUnlock]\<rparr>)"
  by (simp add: Contains_mem_def RLock_def RUnlock_def emit_def)

lemma copy_apart:
  assumes "len s = 0 \<or> arr s < length h"
    and "append_slice growslice h \<lparr>arr = 0, off = 0, len = 0, cap = 0\<rparr> (contents h s) = (r, h1)"
  shows "apart h1 r s \<and> contents h1 s = contents h s \<and> contents h1 r = contents h s"
proof (cases "contents h s = []")
  case True
  with assms show ?thesis
    by (auto simp add: append_slice_def apart_def contents_def)
next
  case False
  let ?n = "length (contents h s)"
  let ?c = "max ?n (growslice 0 ?n)"
  from False have "len s \<noteq> 0" by (auto simp add: contents_def)
  with assms(1) have a: "arr s < length h" by simp
  from False assms(2)
  have r: "r = \<lparr>arr = length h, off = 0, len = ?n, cap = ?c\<rparr>"
    and h1: "h1 = h @ [contents h s @ replicate (?c - ?n) []]"
    by (auto simp add: append_slice_def Let_def contents_len0)
  have "contents h1 r = contents h s"
    by (simp add: r h1 contents_def [of _ "\<lparr>arr = length h, off = 0, len = ?n, cap = ?c\<rparr>"])
  moreover have "contents h1 s = contents h s" using a by (simp add: h1 contents_alloc)
  moreover have "apart h1 r s" using a by (simp add: apart_def r h1)
  ultimately show ?thesis by simp
qed

text \<open>An assignment through a slice is seen through every slice of the same array.\<close>

lemma alias_store_visible:
  "mutate (\<lambda>old need. 2 * need) (\<lparr>arr = 0, off = 0, len = 2, cap = 4\<rparr>, [[''a'', ''b'', [], []]])
       (Store 0 ''x'')
     = Some (\<lparr>arr = 0, off = 0, len = 2, cap = 4\<rparr>, [[''x'', ''b'', [], []]])
   \<and> contents [[''x'', ''b'', [], []]] \<lparr>arr = 0, off = 0, len = 2, cap = 4\<rparr> = [''x'', ''b'']"
  by (simp add: contents_def)

section \<open>Membership\<close>

text \<open>
  C7. Called with the lock free, \<^verbatim>\<open>Remove(uuid)\<close> returns, whatever the store answers to
  the write; it leaves in \<^verbatim>\<open>Whitelisted\<close> exactly the entries different from \<open>uuid\<close>, in
  their order, so no occurrence of \<open>uuid\<close> is left, and the \<^verbatim>\<open>Contains(uuid)\<close> that follows
  returns false.
\<close>

theorem Remove_deletes_all:
  assumes "m w = Free"
  shows "\<exists>err w1 w2. Remove H uuid w = Inr (err, w1)
           \<and> Whitelisted w1 = filter (\<lambda>s. s \<noteq> uuid) (Whitelisted w)
           \<and> count_list (Whitelisted w1) uuid = 0
           \<and> Contains uuid w1 = Inr (False, w2)"
  using assms
  by (simp add: Remove_Free Contains_Free slices_DeleteFunc_filter slices_Contains_iff)

theorem Remove_deletes_all_witness:
  "m (cache_of True [''a'', ''b'', ''a''] []) = Free
   \<and> (\<exists>err w1 w2. Remove (fake_hosting False) ''a'' (cache_of True [''a'', ''b'', ''a''] [])
          = Inr (err, w1)
        \<and> Whitelisted w1 = [''b'']
        \<and> count_list (Whitelisted w1) ''a'' = 0
        \<and> Contains ''a'' w1 = Inr (False, w2))"
  using Remove_deletes_all [of "cache_of True [''a'', ''b'', ''a''] []" "fake_hosting False" "''a''"]
  by (simp add: cache_of_def)

text \<open>
  C8. Called with the lock free, a run of \<^verbatim>\<open>Add\<close> calls returns, whatever the store
  answers to the writes; afterwards \<^verbatim>\<open>Whitelisted\<close> is the old sequence followed by the
  added identifiers in the order of the calls (so an identifier added twice is there
  once more for each call, and nothing is lost), and \<^verbatim>\<open>Contains\<close> returns true for every
  added identifier.
\<close>

theorem Add_each_keeps_all:
  assumes "m w = Free"
  shows "\<exists>w'. Add_each H uuids w = Inr w'
           \<and> Whitelisted w' = Whitelisted w @ uuids
           \<and> (\<forall>u. count_list (Whitelisted w') u = count_list (Whitelisted w) u + count_list uuids u)
           \<and> (\<forall>u \<in> set uuids. \<exists>w''. Contains u w' = Inr (True, w''))"
proof -
  from Add_each_Free [OF assms] obtain w' where
    r: "Add_each H uuids w = Inr w'" and f: "m w' = Free"
    and l: "Whitelisted w' = Whitelisted w @ uuids"
    by blast
  have "\<forall>u \<in> set uuids. \<exists>w''. Contains u w' = Inr (True, w'')"
    using f l by (simp add: Contains_Free slices_Contains_iff)
  with r l show ?thesis by simp
qed

theorem Add_each_keeps_all_witness:
  "m (cache_of False [''a''] []) = Free
   \<and> (\<exists>w'. Add_each (fake_hosting False) [''b'', ''a'', ''b''] (cache_of False [''a''] []) = Inr w'
        \<and> Whitelisted w' = [''a'', ''b'', ''a'', ''b'']
        \<and> count_list (Whitelisted w') ''b'' = 2
        \<and> (\<exists>w''. Contains ''a'' w' = Inr (True, w''))
        \<and> (\<exists>w''. Contains ''b'' w' = Inr (True, w'')))"
proof -
  let ?w = "cache_of False [''a''] []"
  have f: "m ?w = Free" by (simp add: cache_of_def)
  from Add_each_keeps_all [OF f, of "fake_hosting False" "[''b'', ''a'', ''b'']"]
  obtain w' where r: "Add_each (fake_hosting False) [''b'', ''a'', ''b''] ?w = Inr w'"
    and l: "Whitelisted w' = Whitelisted ?w @ [''b'', ''a'', ''b'']"
    and c: "\<forall>u. count_list (Whitelisted w') u
                 = count_list (Whitelisted ?w) u + count_list [''b'', ''a'', ''b''] u"
    and k: "\<forall>u \<in> set [''b'', ''a'', ''b'']. \<exists>w''. Contains u w' = Inr (True, w'')"
    by blast
  have l': "Whitelisted w' = [''a'', ''b'', ''a'', ''b'']"
    using l by (simp add: cache_of_def)
  have c': "count_list (Whitelisted w') ''b'' = 2"
    using l' by simp
  have ka: "\<exists>w''. Contains ''a'' w' = Inr (True, w'')" using k by simp
  have kb: "\<exists>w''. Contains ''b'' w' = Inr (True, w'')" using k by simp
  from f r l' c' ka kb show ?thesis by blast
qed

section \<open>The flag\<close>

text \<open>
  C10. Called with the lock free, \<^verbatim>\<open>Enable\<close> returns what the store answers to the write
  of \<open>True\<close> under "enabled", an error or none, and the \<^verbatim>\<open>IsEnabled\<close> that follows
  returns true; \<^verbatim>\<open>Disable\<close> likewise with \<open>False\<close>. The value is set in memory before the
  write: the write is the one of the new value.
\<close>

theorem Enable_Disable_visible:
  assumes "m w = Free"
  shows "(\<exists>w1 w2. Enable H w = Inr (snd (SetKeyToKV_bool H (kv w) ''enabled'' True), w1)
            \<and> IsEnabled w1 = Inr (True, w2))
       \<and> (\<exists>w1 w2. Disable H w = Inr (snd (SetKeyToKV_bool H (kv w) ''enabled'' False), w1)
            \<and> IsEnabled w1 = Inr (False, w2))"
  using assms by (simp add: Enable_Free Disable_Free IsEnabled_Free)

theorem Enable_Disable_visible_witness:
  "m (cache_of False [] []) = Free
   \<and> (\<exists>w1 w2. Enable (fake_hosting False) (cache_of False [] [])
                 = Inr (Some (Failure ''nats: timeout''), w1)
        \<and> IsEnabled w1 = Inr (True, w2))
   \<and> (\<exists>w1 w2. Disable (fake_hosting False) (cache_of False [] [])
                 = Inr (Some (Failure ''nats: timeout''), w1)
        \<and> IsEnabled w1 = Inr (False, w2))"
  using Enable_Disable_visible [of "cache_of False [] []" "fake_hosting False"]
  by (simp add: cache_of_def fake_hosting_def)

section \<open>Reload\<close>

text \<open>
  C1. A run of \<^verbatim>\<open>Reload\<close> on a store that holds \<open>true\<close> under "enabled" and one
  identifier under "whitelisted", from an empty cache: the first fetch succeeds, so its
  nil error is returned by the \<^verbatim>\<open>else\<close> branch; the call reports success, "whitelisted"
  is never fetched and \<^verbatim>\<open>Whitelisted\<close> stays empty although the store holds an entry.
\<close>

theorem Reload_skips_whitelisted:
  "GetKeyFromKV_strings (fake_hosting True)
      [(''enabled'', JBool True), (''whitelisted'', JStrings [''alice''])] ''whitelisted'' []
     = ([''alice''], None)
   \<and> (\<exists>w'. Reload (fake_hosting True)
             (cache_of False [] [(''enabled'', JBool True), (''whitelisted'', JStrings [''alice''])])
           = Inr (None, w')
        \<and> Enabled w' = True
        \<and> Whitelisted w' = []
        \<and> trace w' = [EvLock, EvGetKey ''enabled'', EvUnlock])"
  by (simp add: Reload_Free Reload_body_def Let_def cache_of_def fake_hosting_def)




text \<open>
  C6, as stated, fails: with "enabled" missing, \<^verbatim>\<open>Reload\<close> still returns an error when
  the fetch of "whitelisted" fails otherwise than by a missing key.
\<close>

theorem Reload_enabled_absent_may_fail:
  "m (cache_of True [] [(''whitelisted'', JBad)]) = Free
   \<and> errors_Is (errors_Unwrap (snd (GetKeyFromKV_bool (fake_hosting True)
         (kv (cache_of True [] [(''whitelisted'', JBad)])) ''enabled''
         (Enabled (cache_of True [] [(''whitelisted'', JBad)]))))) ErrKeyNotFound
   \<and> (\<exists>w'. Reload (fake_hosting True) (cache_of True [] [(''whitelisted'', JBad)])
          = Inr (Some (Wrapf ''unmarshal'' (Failure ''invalid character'')), w'))"
  by (simp add: Reload_Free Reload_body_def Let_def cache_of_def fake_hosting_def)

text \<open>
  C6, amended. When the fetch of "enabled" reports the key missing, \<^verbatim>\<open>Reload\<close>, called
  with the lock free, returns, and the \<^verbatim>\<open>IsEnabled\<close> that follows returns false. Its
  result is success when the fetch of "whitelisted" succeeds or reports the key missing,
  and the error of that fetch otherwise.
\<close>

theorem Reload_enabled_absent:
  assumes "m w = Free"
    and "errors_Is (errors_Unwrap (snd (GetKeyFromKV_bool H (kv w) ''enabled'' (Enabled w))))
           ErrKeyNotFound"
  shows "\<exists>w1 w2. Reload H w =
            Inr (if errors_Is (errors_Unwrap
                       (snd (GetKeyFromKV_strings H (kv w) ''whitelisted'' (Whitelisted w))))
                     ErrKeyNotFound
                 then None
                 else snd (GetKeyFromKV_strings H (kv w) ''whitelisted'' (Whitelisted w)), w1)
          \<and> IsEnabled w1 = Inr (False, w2)"
  using assms
  by (auto simp add: Reload_Free Reload_body_def Let_def IsEnabled_Free split: prod.splits option.splits)

theorem Reload_enabled_absent_witness:
  "m (cache_of True [''a''] []) = Free
   \<and> errors_Is (errors_Unwrap (snd (GetKeyFromKV_bool (fake_hosting True)
         (kv (cache_of True [''a''] [])) ''enabled'' (Enabled (cache_of True [''a''] [])))))
       ErrKeyNotFound
   \<and> (\<exists>w1 w2. Reload (fake_hosting True) (cache_of True [''a''] []) = Inr (None, w1)
        \<and> IsEnabled w1 = Inr (False, w2))"
proof -
  let ?w = "cache_of True [''a''] []"
  have f: "m ?w = Free" by (simp add: cache_of_def)
  have a: "errors_Is (errors_Unwrap (snd (GetKeyFromKV_bool (fake_hosting True)
             (kv ?w) ''enabled'' (Enabled ?w)))) ErrKeyNotFound"
    by (simp add: cache_of_def fake_hosting_def)
  have n: "errors_Is (errors_Unwrap (snd (GetKeyFromKV_strings (fake_hosting True)
             (kv ?w) ''whitelisted'' (Whitelisted ?w)))) ErrKeyNotFound"
    by (simp add: cache_of_def fake_hosting_def)
  from Reload_enabled_absent [OF f a] n
  have "\<exists>w1 w2. Reload (fake_hosting True) ?w = Inr (None, w1) \<and> IsEnabled w1 = Inr (False, w2)"
    by simp
  with f a show ?thesis by blast
qed

section \<open>The goroutine of the constructor\<close>

text \<open>
  C2. A run of the loop from a cache that holds one identifier, over a "whitelisted"
  event whose payload does not decode followed by a well-formed one: the failure branch
  has released the lock when the \<^verbatim>\<open>Unlock\<close> after it runs, which is a fatal error of the
  runtime, so the run ends there and the second event is never handled. The second event
  alone is applied.
\<close>

theorem apply_loop_malformed_crashes:
  "apply_loop fake_json
     [Some \<lparr>Key = ''whitelisted'', Value = ''{oops''\<rparr>,
      Some \<lparr>Key = ''whitelisted'', Value = ''[]''\<rparr>]
     (cache_of False [''alice''] [])
   = Inl (Fatal ''sync: Unlock of unlocked RWMutex'')
   \<and> (\<exists>w'. apply_loop fake_json [Some \<lparr>Key = ''whitelisted'', Value = ''[]''\<rparr>]
              (cache_of False [''alice''] []) = Inr w' \<and> Whitelisted w' = [])"
  by (simp add: apply_change_def Lock_Free Unlock_Writer Unlock_Free cache_of_def fake_json_def)

text \<open>
  C3. One \<^verbatim>\<open>Lock\<close> followed by one \<^verbatim>\<open>Unlock\<close> leaves the lock free, and a second
  \<^verbatim>\<open>Unlock\<close> is then a fatal error. The handling of an "enabled" and of a "whitelisted"
  event whose payload does not decode ends in that fatal error: its path has one
  \<^verbatim>\<open>Lock\<close> and two \<^verbatim>\<open>Unlock\<close>. The path of a payload that decodes has one of each.
\<close>

theorem apply_change_unlocks_twice:
  "and_then (Lock (cache_of False [] [])) Unlock
     = Inr ((cache_of False [] [])\<lparr>trace := [EvLock, EvUnlock]\<rparr>)
   \<and> and_then (and_then (Lock (cache_of False [] [])) Unlock) Unlock
     = Inl (Fatal ''sync: Unlock of unlocked RWMutex'')
   \<and> apply_change fake_json (Some \<lparr>Key = ''enabled'', Value = ''maybe''\<rparr>) (cache_of False [] [])
     = Inl (Fatal ''sync: Unlock of unlocked RWMutex'')
   \<and> apply_change fake_json (Some \<lparr>Key = ''whitelisted'', Value = ''{oops''\<rparr>) (cache_of False [] [])
     = Inl (Fatal ''sync: Unlock of unlocked RWMutex'')
   \<and> apply_change fake_json (Some \<lparr>Key = ''enabled'', Value = ''true''\<rparr>) (cache_of False [] [])
     = Inr ((cache_of False [] [])\<lparr>Enabled := True, trace := [EvLock, EvUnlock]\<rparr>)"
  by (simp add: apply_change_def Lock_Free Unlock_Writer Unlock_Free cache_of_def fake_json_def emit_def)

section \<open>The lock around the writes to the store\<close>

text \<open>
  C4, as stated, fails: it is not so that every run of \<^verbatim>\<open>Enable\<close> makes its
  \<^verbatim>\<open>SetKeyToKV\<close> call with the exclusive lock released.
\<close>

theorem Enable_sets_under_lock:
  "\<not> (\<forall>(H :: bucket hosting) w err w'. m w = Free \<longrightarrow> Enable H w = Inr (err, w') \<longrightarrow>
        sets_outside_lock False (drop (length (trace w)) (trace w')))"
proof
  assume a: "\<forall>(H :: bucket hosting) w err w'. m w = Free \<longrightarrow> Enable H w = Inr (err, w') \<longrightarrow>
        sets_outside_lock False (drop (length (trace w)) (trace w'))"
  let ?w = "cache_of False [] []"
  let ?H = "fake_hosting True"
  let ?w' = "?w\<lparr>Enabled := True, m := Free,
                kv := fst (SetKeyToKV_bool ?H (kv ?w) ''enabled'' True),
                trace := trace ?w @ [EvLock, EvUnlock, EvLock, EvSetKey ''enabled'', EvUnlock]\<rparr>"
  have f: "m ?w = Free" by (simp add: cache_of_def)
  have e: "Enable ?H ?w = Inr (snd (SetKeyToKV_bool ?H (kv ?w) ''enabled'' True), ?w')"
    by (rule Enable_Free [OF f])
  from a [rule_format, OF f e]
  have "sets_outside_lock False [EvLock, EvUnlock, EvLock, EvSetKey ''enabled'', EvUnlock]"
    by (simp add: cache_of_def)
  then show False by simp
qed

text \<open>
  C4, amended. Called with the lock free, each of \<^verbatim>\<open>Enable\<close>, \<^verbatim>\<open>Disable\<close>, \<^verbatim>\<open>Add\<close> and
  \<^verbatim>\<open>Remove\<close> returns after exactly these steps: it takes the exclusive lock and releases
  it (around the update in memory), then its save helper takes the lock again, makes the
  \<^verbatim>\<open>SetKeyToKV\<close> call with the lock held, and releases it.
\<close>

theorem mutations_lock_twice:
  assumes "m w = Free"
  shows "(\<exists>err w'. Enable H w = Inr (err, w')
            \<and> trace w' = trace w @ [EvLock, EvUnlock, EvLock, EvSetKey ''enabled'', EvUnlock])
       \<and> (\<exists>err w'. Disable H w = Inr (err, w')
            \<and> trace w' = trace w @ [EvLock, EvUnlock, EvLock, EvSetKey ''enabled'', EvUnlock])
       \<and> (\<exists>err w'. Add H uuid w = Inr (err, w')
            \<and> trace w' = trace w @ [EvLock, EvUnlock, EvLock, EvSetKey ''whitelisted'', EvUnlock])
       \<and> (\<exists>err w'. Remove H uuid w = Inr (err, w')
            \<and> trace w' = trace w @ [EvLock, EvUnlock, EvLock, EvSetKey ''whitelisted'', EvUnlock])"
  using assms by (simp add: Enable_Free Disable_Free Add_Free Remove_Free)

theorem mutations_lock_twice_witness:
  "m (cache_of False [''a''] []) = Free
   \<and> (\<exists>err w'. Enable (fake_hosting True) (cache_of False [''a''] []) = Inr (err, w')
         \<and> trace w' = [EvLock, EvUnlock, EvLock, EvSetKey ''enabled'', EvUnlock])
   \<and> (\<exists>err w'. Disable (fake_hosting True) (cache_of False [''a''] []) = Inr (err, w')
         \<and> trace w' = [EvLock, EvUnlock, EvLock, EvSetKey ''enabled'', EvUnlock])
   \<and> (\<exists>err w'. Add (fake_hosting True) ''b'' (cache_of False [''a''] []) = Inr (err, w')
         \<and> trace w' = [EvLock, EvUnlock, EvLock, EvSetKey ''whitelisted'', EvUnlock])
   \<and> (\<exists>err w'. Remove (fake_hosting True) ''b'' (cache_of False [''a''] []) = Inr (err, w')
         \<and> trace w' = [EvLock, EvUnlock, EvLock, EvSetKey ''whitelisted'', EvUnlock])"
  using mutations_lock_twice [of "cache_of False [''a''] []" "fake_hosting True" "''b''"]
  by (simp add: cache_of_def)

section \<open>The copy returned by AllWhitelisted\<close>

text \<open>
  C9. Called with the lock free, on a heap in which the array of \<^verbatim>\<open>w.Whitelisted\<close> is
  allocated, \<^verbatim>\<open>AllWhitelisted\<close> returns a slice with the elements of \<^verbatim>\<open>w.Whitelisted\<close>
  and leaves the field as it is. Whatever the caller then does to the returned slice
  (any run of element assignments, appends and reslices that does not panic), the
  elements of \<^verbatim>\<open>w.Whitelisted\<close> are what they were, and \<^verbatim>\<open>Contains\<close> returns for every
  identifier what it returned before.
\<close>

theorem AllWhitelisted_is_copy:
  assumes "m w = Free" and "len (Whitelisted w) = 0 \<or> arr (Whitelisted w) < length h"
  shows "\<exists>r h1 w1. AllWhitelisted growslice h w = Inr ((r, h1), w1)
      \<and> Whitelisted w1 = Whitelisted w
      \<and> contents h1 r = contents h (Whitelisted w)
      \<and> (\<forall>mus r2 h2. mutate_all growslice (r, h1) mus = Some (r2, h2) \<longrightarrow>
            contents h2 (Whitelisted w1) = contents h (Whitelisted w)
          \<and> (\<forall>uuid. Contains_mem h2 uuid w1 = Contains_mem h uuid w1))"
proof -
  let ?s = "Whitelisted w"
  let ?w1 = "w\<lparr>m := Free, trace := trace w @ [EvRLock, EvRUnlock]\<rparr>"
  obtain r h1 where
    c: "append_slice growslice h \<lparr>arr = 0, off = 0, len = 0, cap = 0\<rparr> (contents h ?s) = (r, h1)"
    by (cases "append_slice growslice h \<lparr>arr = 0, off = 0, len = 0, cap = 0\<rparr> (contents h ?s)")
  from copy_apart [OF assms(2) c]
  have ap: "apart h1 r ?s" and k: "contents h1 ?s = contents h ?s"
    and e: "contents h1 r = contents h ?s"
    by simp_all
  have run: "AllWhitelisted growslice h w = Inr ((r, h1), ?w1)"
    using assms(1) c by (simp add: AllWhitelisted_Free)
  have f1: "m ?w1 = Free" by simp
  have later: "contents h2 (Whitelisted ?w1) = contents h ?s
        \<and> (\<forall>uuid. Contains_mem h2 uuid ?w1 = Contains_mem h uuid ?w1)"
    if "mutate_all growslice (r, h1) mus = Some (r2, h2)" for mus r2 h2
  proof -
    from mutate_all_apart [OF ap that] k
    have "contents h2 ?s = contents h ?s" by simp
    then show ?thesis by (simp add: Contains_mem_Free [OF f1])
  qed
  from run e later show ?thesis by auto
qed


theorem AllWhitelisted_is_copy_witness:
  "m \<lparr>Enabled = True, Whitelisted = \<lparr>arr = 0, off = 0, len = 2, cap = 4\<rparr>, m = Free, kv = (),
       trace = []\<rparr> = Free
   \<and> arr (Whitelisted \<lparr>Enabled = True, Whitelisted = \<lparr>arr = 0, off = 0, len = 2, cap = 4\<rparr>,
         m = Free, kv = (), trace = []\<rparr>) < length [[''a'', ''b'', [], []]]
   \<and> (\<exists>r h1 w1 r2 h2.
         AllWhitelisted (\<lambda>old need. 2 * need) [[''a'', ''b'', [], []]]
           \<lparr>Enabled = True, Whitelisted = \<lparr>arr = 0, off = 0, len = 2, cap = 4\<rparr>, m = Free,
              kv = (), trace = []\<rparr> = Inr ((r, h1), w1)
       \<and> contents h1 r = [''a'', ''b'']
       \<and> mutate_all (\<lambda>old need. 2 * need) (r, h1) [Store 0 ''x'', AppendTo [''y'']] = Some (r2, h2)
       \<and> contents h2 r2 = [''x'', ''b'', ''y'']
       \<and> contents h2 (Whitelisted w1) = [''a'', ''b'']
       \<and> Contains_mem h2 ''a'' w1 = Contains_mem [[''a'', ''b'', [], []]] ''a'' w1)"
proof -
  let ?g = "\<lambda>old need :: nat. 2 * need"
  let ?s = "\<lparr>arr = 0, off = 0, len = 2, cap = 4\<rparr>"
  let ?h = "[[''a'', ''b'', [], []]]"
  let ?w = "\<lparr>Enabled = True, Whitelisted = ?s, m = Free, kv = (), trace = []\<rparr>"
  let ?r = "\<lparr>arr = 1, off = 0, len = 2, cap = 4\<rparr>"
  let ?h1 = "[[''a'', ''b'', [], []], [''a'', ''b'', [], []]]"
  let ?w1 = "?w\<lparr>m := Free, trace := [EvRLock, EvRUnlock]\<rparr>"
  let ?h2 = "[[''a'', ''b'', [], []], [''x'', ''b'', ''y'', []]]"
  let ?r2 = "\<lparr>arr = 1, off = 0, len = 3, cap = 4\<rparr>"
  have f: "m ?w = Free" by simp
  have v: "len (Whitelisted ?w) = 0 \<or> arr (Whitelisted ?w) < length ?h" by simp
  have run: "AllWhitelisted ?g ?h ?w = Inr ((?r, ?h1), ?w1)"
    by (simp add: AllWhitelisted_Free append_slice_def contents_def Let_def numeral_2_eq_2)
  have mut: "mutate_all ?g (?r, ?h1) [Store 0 ''x'', AppendTo [''y'']] = Some (?r2, ?h2)"
    by (simp add: append_slice_def Let_def)
  have own: "contents ?h2 ?r2 = [''x'', ''b'', ''y'']"
    by (simp add: contents_def numeral_3_eq_3)
  from AllWhitelisted_is_copy [OF f v, of ?g] run
  have c: "contents ?h1 ?r = contents ?h ?s"
    and d: "\<forall>mus r2 h2. mutate_all ?g (?r, ?h1) mus = Some (r2, h2) \<longrightarrow>
            contents h2 (Whitelisted ?w1) = contents ?h ?s
          \<and> (\<forall>uuid. Contains_mem h2 uuid ?w1 = Contains_mem ?h uuid ?w1)"
    by simp_all
  from d [rule_format, OF mut]
  have k: "contents ?h2 (Whitelisted ?w1) = contents ?h ?s"
    and q: "Contains_mem ?h2 ''a'' ?w1 = Contains_mem ?h ''a'' ?w1"
    by simp_all
  have e: "contents ?h ?s = [''a'', ''b'']" by (simp add: contents_def numeral_2_eq_2)
  from f run c mut own k q e show ?thesis
    by (intro conjI exI [of _ ?r] exI [of _ ?h1] exI [of _ ?w1] exI [of _ ?r2] exI [of _ ?h2])
      simp_all
qed

end
